theory Spec2Isabelle
  imports Main
begin

section \<open>Values exchanged with the response object\<close>

text \<open>
  A Buffer is the list of its bytes. A JavaScript string is represented by its UTF-8
  bytes, so \<^verbatim>\<open>Buffer#toString()\<close> and \<^verbatim>\<open>Buffer.from(string)\<close> are the identity
  of the model and a string index is a byte offset. This is exact for well-formed UTF-8
  content whose chunks end on character boundaries; content outside that range is
  outside the model.
\<close>

type_synonym bytes = string

text \<open>
  A header value is a string or an array of strings (\<^verbatim>\<open>Array.isArray\<close>). A number
  given as a header value is represented by its decimal string.
\<close>

datatype hval = Scalar string | Multi "string list"

text \<open>
  The variadic arguments of \<^verbatim>\<open>write\<close> and \<^verbatim>\<open>end\<close>: a string (an encoding name, or
  data for \<^verbatim>\<open>end\<close>), a function (a completion callback, named by a number) or
  \<^verbatim>\<open>undefined\<close>.
\<close>

datatype arg = Str string | Fun nat | Undefined

datatype js_error = Error (message: string) (code: "string option")

datatype exn = TypeError string

text \<open>
  What the engine does to the underlying response besides setting headers: calls of
  the original \<^verbatim>\<open>write\<close> and \<^verbatim>\<open>end\<close>, \<^verbatim>\<open>res.emit('error', e)\<close>, and calls of
  a completion callback made by the wrapper itself.
\<close>

datatype event = Write bytes "arg list" | End bytes "arg list" | Emit js_error | Call nat

section \<open>External collaborators\<close>

text \<open>
  The arguments of \<^verbatim>\<open>main\<close> (\<^verbatim>\<open>injectChunk\<close>, \<^verbatim>\<open>etag\<close>) together with the
  library functions the closure calls and whose code is not part of the repository.
  They are parameters of the model, so every theorem holds for each of them:
  \<^item> \<open>md5Base64\<close>: \<^verbatim>\<open>createHash('md5').update(buf).digest('base64')\<close>;
  \<^item> \<open>Number\<close>: \<^verbatim>\<open>Number(v)\<close> followed by \<^verbatim>\<open>Number.isInteger\<close>: \<open>Some n\<close> when the
    value converts to the integer \<open>n\<close>, \<open>None\<close> when it converts to NaN, to a
    fraction or to an infinity. Integers are taken in the range where JavaScript's
    addition and decimal printing are exact;
  \<^item> \<open>inspect\<close>: \<^verbatim>\<open>util.inspect\<close>;
  \<^item> \<open>parse\<close>: \<^verbatim>\<open>parse(v).type\<close> of the content-type package: \<open>Some t\<close> for the
    lower-cased media type, \<open>None\<close> when \<^verbatim>\<open>parse\<close> throws a TypeError.
\<close>

record cfg =
  injectChunk :: bytes
  etag :: "string option"
  md5Base64 :: "bytes \<Rightarrow> string"
  Number :: "hval \<Rightarrow> int option"
  inspect :: "hval \<Rightarrow> string"
  parse :: "string \<Rightarrow> string option"

subsection \<open>Characters\<close>

definition to_lower :: "char \<Rightarrow> char" where
  "to_lower c =
     (case map_of (zip ''ABCDEFGHIJKLMNOPQRSTUVWXYZ'' ''abcdefghijklmnopqrstuvwxyz'') c of
        Some l \<Rightarrow> l
      | None \<Rightarrow> c)"

definition toLowerCase :: "string \<Rightarrow> string" where
  "toLowerCase s = map to_lower s"

definition whitespace :: "char \<Rightarrow> bool" where
  "whitespace c \<longleftrightarrow>
     c = CHR '' '' \<or> c = CHR 0x0A \<or> c = CHR 0x09 \<or> c = CHR 0x0C \<or> c = CHR 0x0D"

fun digit :: "nat \<Rightarrow> char" where
  "digit n = (''0123456789'' ! (n mod 10))"

text \<open>The decimal digits of a number, as the template literal \<^verbatim>\<open>`${n}`\<close> prints them.\<close>

fun string_of_nat :: "nat \<Rightarrow> string" where
  "string_of_nat n =
     (if n < 10 then [digit n] else string_of_nat (n div 10) @ [digit n])"

subsection \<open>The HTML tokenizer\<close>

text \<open>
  Modelled from the spec: the streaming HTML tokenizer (htmlparser2's \<^verbatim>\<open>Parser\<close>),
  of which the repository holds only the calls. Section 4.2 of the specification asks
  for an incremental tokenizer that reports the opening tag of an element, with its
  name in lower case, at the offset of the tag's closing \<^verbatim>\<open>>\<close>, that does not report
  closing tags and does not look for tags inside attribute values, and that never
  scans a byte twice. The model is a character-driven automaton: text, the character
  after \<^verbatim>\<open><\<close>, a tag name, the attributes of a tag (with quoted values), and
  everything that is skipped up to the next \<^verbatim>\<open>>\<close> (closing tags, declarations,
  processing instructions). Comments and the content of script and style elements get
  no treatment of their own.
\<close>

datatype tstate =
    Text
  | BeforeTagName
  | InTagName string
  | InAttributes string
  | InAttributeValue string char
  | InSkipped

text \<open>
  Modelled from the spec: one step of that tokenizer. The result holds the next state
  and, at the closing \<^verbatim>\<open>>\<close> of an opening tag, the tag's name in lower case (the
  argument of \<^verbatim>\<open>onopentag\<close>).
\<close>

fun tok_step :: "tstate \<Rightarrow> char \<Rightarrow> tstate \<times> string option" where
  "tok_step Text c = (if c = CHR ''<'' then BeforeTagName else Text, None)"
| "tok_step BeforeTagName c =
     (if c = CHR ''/'' \<or> c = CHR ''!'' \<or> c = CHR ''?'' then (InSkipped, None)
      else if c = CHR ''<'' then (BeforeTagName, None)
      else if c = CHR ''>'' \<or> whitespace c then (Text, None)
      else (InTagName [c], None))"
| "tok_step (InTagName n) c =
     (if c = CHR ''>'' then (Text, Some (toLowerCase n))
      else if c = CHR ''/'' \<or> whitespace c then (InAttributes n, None)
      else (InTagName (n @ [c]), None))"
| "tok_step (InAttributes n) c =
     (if c = CHR ''>'' then (Text, Some (toLowerCase n))
      else if c = CHR 0x22 \<or> c = CHR 0x27 then (InAttributeValue n c, None)
      else (InAttributes n, None))"
| "tok_step (InAttributeValue n q) c =
     (if c = q then InAttributes n else InAttributeValue n q, None)"
| "tok_step InSkipped c = (if c = CHR ''>'' then Text else InSkipped, None)"

text \<open>
  The parser object: the automaton's state, the number of characters consumed since
  the parser was created or reset (the absolute index of the next character), and
  \<^verbatim>\<open>endIndex\<close>, the index of the last character of the token reported last.
\<close>

record Parser =
  tok :: tstate
  pos :: nat
  endIndex :: nat

definition new_Parser :: Parser where
  "new_Parser = \<lparr>tok = Text, pos = 0, endIndex = 0\<rparr>"

subsection \<open>Buffer.concat\<close>

text \<open>
  \<^verbatim>\<open>Buffer.concat(list, totalLength)\<close> of Node.js: the concatenation, truncated to
  \<open>totalLength\<close> when it is longer and filled with zero bytes when it is shorter.
\<close>

definition Buffer_concat :: "bytes list \<Rightarrow> nat \<Rightarrow> bytes" where
  "Buffer_concat list totalLength =
     take totalLength (concat list @ replicate totalLength (CHR 0x00))"

section \<open>The closure of \<^verbatim>\<open>main\<close>\<close>

text \<open>
  The variables of the closure (\<^verbatim>\<open>buffers\<close>, \<^verbatim>\<open>willEnd\<close>, \<^verbatim>\<open>len\<close>, \<^verbatim>\<open>isHtml\<close>,
  \<^verbatim>\<open>parser\<close>, which is \<^verbatim>\<open>null\<close> once \<^verbatim>\<open>onend\<close> has run), the header store of the
  underlying response (keyed by lower-cased name, as \<^verbatim>\<open>getHeader\<close> and
  \<^verbatim>\<open>hasHeader\<close> read it), and the log of what reached the underlying response.
\<close>

record state =
  buffers :: "bytes list"
  willEnd :: bool
  len :: nat
  isHtml :: bool
  parser :: "Parser option"
  headers :: "string \<rightharpoonup> hval"
  out :: "event list"

definition TMP_HEADER_NAME :: string where
  "TMP_HEADER_NAME = ''nodejs-inject-body-temporary-header-name''"

text \<open>The original \<^verbatim>\<open>setHeader\<close> of the response, bound before it is replaced.\<close>

definition setHeader :: "state \<Rightarrow> string \<Rightarrow> hval \<Rightarrow> state" where
  "setHeader s headerName headerValue =
     s\<lparr>headers := (headers s)(toLowerCase headerName \<mapsto> headerValue)\<rparr>"

definition emit_error :: "state \<Rightarrow> js_error \<Rightarrow> state" where
  "emit_error s e = s\<lparr>out := out s @ [Emit e]\<rparr>"

text \<open>\<^verbatim>\<open>etag || md5Base64(injectChunk)\<close>: an absent or empty \<^verbatim>\<open>etag\<close> is falsy.\<close>

definition digest :: "cfg \<Rightarrow> string" where
  "digest c =
     (case etag c of
        None \<Rightarrow> md5Base64 c (injectChunk c)
      | Some e \<Rightarrow> if e = [] then md5Base64 c (injectChunk c) else e)"

text \<open>A value inside a template literal: an array is joined with commas.\<close>

fun join :: "string list \<Rightarrow> string" where
  "join [] = []"
| "join [x] = x"
| "join (x # y # ys) = x @ '','' @ join (y # ys)"

fun to_string :: "hval \<Rightarrow> string" where
  "to_string (Scalar x) = x"
| "to_string (Multi xs) = join xs"

subsection \<open>The parser's callbacks\<close>

text \<open>\<^verbatim>\<open>parser.end()\<close> runs \<^verbatim>\<open>onend\<close>, which sets \<^verbatim>\<open>parser\<close> to \<^verbatim>\<open>null\<close>.\<close>

definition parser_end :: "state \<Rightarrow> state" where
  "parser_end s = s\<lparr>parser := None\<rparr>"

definition onopentag :: "cfg \<Rightarrow> state \<Rightarrow> string \<Rightarrow> state" where
  "onopentag c s tagName =
     (case parser s of
        None \<Rightarrow> s
      | Some p \<Rightarrow>
          if tagName \<noteq> ''body'' then s
          else if \<not> isHtml s then parser_end s
          else
            let insertionIndex = endIndex p + 1;
                html = Buffer_concat (buffers s) (len s)
            in parser_end
                 (s\<lparr>buffers :=
                      [take insertionIndex html @ injectChunk c @ drop insertionIndex html],
                    len := len s + length (injectChunk c)\<rparr>))"

text \<open>
  Modelled from the spec: \<^verbatim>\<open>parser.write(data)\<close>, the feeding of a chunk to the
  tokenizer. The tokenizer consumes the chunk character by character and
  calls \<^verbatim>\<open>onopentag\<close> at the closing \<^verbatim>\<open>>\<close> of every opening tag. Once \<^verbatim>\<open>parser\<close> is
  \<^verbatim>\<open>null\<close> the callback returns at its first line, so the rest of the chunk has no
  effect.
\<close>

fun parser_write :: "cfg \<Rightarrow> state \<Rightarrow> bytes \<Rightarrow> state" where
  "parser_write c s [] = s"
| "parser_write c s (x # xs) =
     (case parser s of
        None \<Rightarrow> s
      | Some p \<Rightarrow>
          (case tok_step (tok p) x of
             (t, None) \<Rightarrow>
               parser_write c (s\<lparr>parser := Some (p\<lparr>tok := t, pos := pos p + 1\<rparr>)\<rparr>) xs
           | (t, Some tagName) \<Rightarrow>
               parser_write c
                 (onopentag c
                    (s\<lparr>parser := Some (p\<lparr>tok := t, pos := pos p + 1, endIndex := pos p\<rparr>)\<rparr>)
                    tagName)
                 xs))"

text \<open>
  Modelled from the spec: \<^verbatim>\<open>parser.parseComplete(data)\<close>, which the code calls in
  place of \<^verbatim>\<open>parser.write(data)\<close> once \<^verbatim>\<open>willEnd\<close> is set. The specification does
  not tell the two apart; htmlparser2 documents \<^verbatim>\<open>parseComplete\<close> as resetting the
  parser, parsing \<open>data\<close> as a complete document and ending, which runs \<^verbatim>\<open>onend\<close>.
  After the reset the tokenizer is back in its first state and counts its indices from
  the start of \<open>data\<close>. None of the general theorems below depends on the index
  reported there.
\<close>

definition parseComplete :: "cfg \<Rightarrow> state \<Rightarrow> bytes \<Rightarrow> state" where
  "parseComplete c s data =
     (case parser s of
        None \<Rightarrow> s
      | Some p \<Rightarrow>
          parser_end (parser_write c (s\<lparr>parser := Some (p\<lparr>tok := Text, pos := 0\<rparr>)\<rparr>) data))"

subsection \<open>adjustContentLength\<close>

text \<open>The error made at lines 75 to 77.\<close>

definition content_length_error :: "cfg \<Rightarrow> hval \<Rightarrow> js_error" where
  "content_length_error c v =
     Error
       (''According to RFC7230, Content-Length header must be a non-negative integer https://tools.ietf.org/html/rfc7230#section-3.3.2, but it was ''
          @ inspect c v @ ''.'')
       None"

definition adjustContentLength :: "cfg \<Rightarrow> state \<Rightarrow> hval \<Rightarrow> state" where
  "adjustContentLength c s originalContentLengthHeaderValue =
     (case Number c originalContentLengthHeaderValue of
        None \<Rightarrow> emit_error s (content_length_error c originalContentLengthHeaderValue)
      | Some originalContentLength \<Rightarrow>
          if originalContentLength < 0 then
            emit_error s (content_length_error c originalContentLengthHeaderValue)
          else if isHtml s then
            setHeader s ''content-length''
              (Scalar (string_of_nat (nat originalContentLength + length (injectChunk c))))
          else s)"

subsection \<open>Attaching to a response\<close>

text \<open>
  \<^verbatim>\<open>main(res, injectChunk, etag)\<close> for a response whose header store is \<open>hs\<close>. Setting
  and removing the temporary header leaves the store without that header.
\<close>

definition main :: "cfg \<Rightarrow> (string \<rightharpoonup> hval) \<Rightarrow> state" where
  "main c hs =
     (let s0 = \<lparr>buffers = [], willEnd = False, len = 0, isHtml = False,
                parser = Some new_Parser, headers = hs(TMP_HEADER_NAME := None), out = []\<rparr>;
          s1 = (case headers s0 ''content-type'' of
                  None \<Rightarrow> s0
                | Some ct \<Rightarrow>
                    let s = s0\<lparr>isHtml := (ct = Scalar ''text/html'')\<rparr>
                    in (case headers s ''content-length'' of
                          None \<Rightarrow> s
                        | Some cl \<Rightarrow> adjustContentLength c s cl))
      in if isHtml s1 then
           (case headers s1 ''etag'' of
              None \<Rightarrow> s1
            | Some e \<Rightarrow> setHeader s1 ''etag'' (Scalar (to_string e @ digest c)))
         else s1)"

subsection \<open>The wrapped setHeader\<close>

text \<open>
  The wrapper throws where \<^verbatim>\<open>parse\<close> throws, and where \<^verbatim>\<open>parser.end()\<close> is reached
  with \<^verbatim>\<open>parser\<close> being \<^verbatim>\<open>null\<close>; both happen before any assignment, so a thrown
  call leaves the closure as it was.
\<close>

definition res_setHeader :: "cfg \<Rightarrow> state \<Rightarrow> string \<Rightarrow> hval \<Rightarrow> exn + state" where
  "res_setHeader c s headerName headerValue =
     (case headerValue of
        Multi xs \<Rightarrow> Inr (setHeader s headerName headerValue)
      | Scalar x \<Rightarrow>
          let lowerCaseHeaderName = toLowerCase headerName in
          if lowerCaseHeaderName = ''content-length'' then
            Inr (adjustContentLength c s headerValue)
          else if isHtml s \<and> lowerCaseHeaderName = ''etag'' then
            Inr (setHeader s headerName (Scalar (x @ digest c)))
          else if lowerCaseHeaderName = ''content-type'' then
            (case parse c x of
               None \<Rightarrow> Inl (TypeError ''invalid media type'')
             | Some t \<Rightarrow>
                 if t = ''text/html'' then
                   Inr (setHeader (s\<lparr>isHtml := True\<rparr>) headerName headerValue)
                 else
                   (case parser s of
                      None \<Rightarrow> Inl (TypeError ''Cannot read property 'end' of null'')
                    | Some p \<Rightarrow> Inr (setHeader (parser_end s) headerName headerValue)))
          else Inr (setHeader s headerName headerValue))"

subsection \<open>The wrapped write and end\<close>

fun truthy :: "arg \<Rightarrow> bool" where
  "truthy (Str x) = (x \<noteq> [])"
| "truthy (Fun f) = True"
| "truthy Undefined = False"

fun is_function :: "arg \<Rightarrow> bool" where
  "is_function (Fun f) = True"
| "is_function _ = False"

fun contains :: "string \<Rightarrow> string \<Rightarrow> bool" where
  "contains pat [] = (pat = [])"
| "contains pat (x # xs) = (take (length pat) (x # xs) = pat \<or> contains pat xs)"

text \<open>\<^verbatim>\<open>/utf-?8/ui.test(encoding)\<close>\<close>

fun utf8_test :: "arg \<Rightarrow> bool" where
  "utf8_test (Str x) = (contains ''utf8'' (toLowerCase x) \<or> contains ''utf-8'' (toLowerCase x))"
| "utf8_test _ = False"

fun arg_string :: "arg \<Rightarrow> string" where
  "arg_string (Str x) = x"
| "arg_string _ = []"

text \<open>\<^verbatim>\<open>const [encoding] = restArgs\<close> and \<^verbatim>\<open>restArgs[restArgs.length - 1]\<close>\<close>

fun first_arg :: "arg list \<Rightarrow> arg" where
  "first_arg [] = Undefined"
| "first_arg (a # as) = a"

fun last_arg :: "arg list \<Rightarrow> arg" where
  "last_arg [] = Undefined"
| "last_arg as = last as"

fun call_if_function :: "state \<Rightarrow> arg \<Rightarrow> state" where
  "call_if_function s (Fun f) = s\<lparr>out := out s @ [Call f]\<rparr>"
| "call_if_function s _ = s"

text \<open>The end of \<^verbatim>\<open>res.write\<close>, from \<^verbatim>\<open>if (willEnd)\<close> on.\<close>

definition write_tail :: "state \<Rightarrow> bytes \<Rightarrow> arg list \<Rightarrow> state" where
  "write_tail s data restArgs =
     (if willEnd s then
        (if length (buffers s) = 1 then
           s\<lparr>out := out s @ [End (hd (buffers s)) restArgs]\<rparr>
         else s\<lparr>out := out s @ [End (Buffer_concat (buffers s) (len s)) restArgs]\<rparr>)
      else s\<lparr>out := out s @ [Write data restArgs]\<rparr>)"

text \<open>The error made at lines 133 to 136.\<close>

definition encoding_error :: "arg \<Rightarrow> js_error" where
  "encoding_error encoding =
     Error
       (''HTML must be UTF-8 encoded https://github.com/w3c/html/pull/1273, but encoded in ''
          @ arg_string encoding @ ''.'')
       (Some ''ERR_INVALID_HTML_ENCODING'')"

definition res_write :: "cfg \<Rightarrow> state \<Rightarrow> bytes \<Rightarrow> arg list \<Rightarrow> state" where
  "res_write c s data restArgs =
     (let encoding = first_arg restArgs in
      if isHtml s \<and> truthy encoding \<and> \<not> is_function encoding \<and> \<not> utf8_test encoding then
        emit_error s (encoding_error encoding)
      else if parser s \<noteq> None then
        (let s1 = s\<lparr>len := len s + length data, buffers := buffers s @ [data]\<rparr> in
         if willEnd s1 then write_tail (parseComplete c s1 data) data restArgs
         else call_if_function (parser_write c s1 data) (last_arg restArgs))
      else if \<not> willEnd s \<and> buffers s \<noteq> [] then
        s\<lparr>buffers := [],
          out := out s @ [Write (Buffer_concat (buffers s @ [data]) (len s + length data)) restArgs]\<rparr>
      else if willEnd s then write_tail (s\<lparr>buffers := buffers s @ [data]\<rparr>) data restArgs
      else write_tail s data restArgs)"

definition res_end :: "cfg \<Rightarrow> state \<Rightarrow> arg \<Rightarrow> arg list \<Rightarrow> state" where
  "res_end c s data restArgs =
     (let s1 = s\<lparr>willEnd := True\<rparr> in
      case data of
        Fun f \<Rightarrow> res_write c s1 [] [Fun f]
      | Str d \<Rightarrow> res_write c s1 d restArgs
      | Undefined \<Rightarrow> res_write c s1 [] restArgs)"

section \<open>Calls made by the response's producer\<close>

text \<open>
  What the producer of a response does with it once the engine is attached. A call of
  the wrapped setHeader that throws leaves the closure unchanged, and the producer
  goes on.
\<close>

datatype call = SetHeader string hval | WriteCall bytes "arg list" | EndCall arg "arg list"

fun exec :: "cfg \<Rightarrow> state \<Rightarrow> call \<Rightarrow> state" where
  "exec c s (SetHeader headerName headerValue) =
     (case res_setHeader c s headerName headerValue of Inl e \<Rightarrow> s | Inr s' \<Rightarrow> s')"
| "exec c s (WriteCall data restArgs) = res_write c s data restArgs"
| "exec c s (EndCall data restArgs) = res_end c s data restArgs"

fun run :: "cfg \<Rightarrow> state \<Rightarrow> call list \<Rightarrow> state" where
  "run c s [] = s"
| "run c s (x # xs) = run c (exec c s x) xs"

fun is_EndCall :: "call \<Rightarrow> bool" where
  "is_EndCall (EndCall data restArgs) = True"
| "is_EndCall _ = False"

fun is_End :: "event \<Rightarrow> bool" where
  "is_End (End chunk restArgs) = True"
| "is_End _ = False"

fun is_Emit :: "event \<Rightarrow> bool" where
  "is_Emit (Emit e) = True"
| "is_Emit _ = False"

text \<open>The sum of the lengths of the chunks of the backlog.\<close>

definition total_length :: "bytes list \<Rightarrow> nat" where
  "total_length list = length (concat list)"

section \<open>An environment for concrete runs\<close>

text \<open>
  Instances of the library functions, enough for the inputs of the examples below:
  decimal numerals for \<open>Number\<close>, single quotes around a string for \<open>inspect\<close>, the
  media type before the first semicolon for \<open>parse\<close>, and the MD5 digest of the one
  payload used.
\<close>

definition is_digit :: "char \<Rightarrow> bool" where
  "is_digit ch \<longleftrightarrow> ch \<in> set ''0123456789''"

fun digit_value :: "char \<Rightarrow> nat" where
  "digit_value ch = length (takeWhile (\<lambda>d. d \<noteq> ch) ''0123456789'')"

fun decimal :: "nat \<Rightarrow> string \<Rightarrow> nat" where
  "decimal acc [] = acc"
| "decimal acc (d # ds) = decimal (10 * acc + digit_value d) ds"

fun example_Number :: "hval \<Rightarrow> int option" where
  "example_Number (Scalar x) =
     (case x of
        [] \<Rightarrow> Some 0
      | d # ds \<Rightarrow>
          if d = CHR ''-'' \<and> ds \<noteq> [] \<and> list_all is_digit ds then Some (- int (decimal 0 ds))
          else if list_all is_digit (d # ds) then Some (int (decimal 0 (d # ds)))
          else None)"
| "example_Number (Multi xs) = None"

fun example_inspect :: "hval \<Rightarrow> string" where
  "example_inspect (Scalar x) = [CHR 0x27] @ x @ [CHR 0x27]"
| "example_inspect (Multi xs) = ''[...]''"

definition token_char :: "char \<Rightarrow> bool" where
  "token_char ch \<longleftrightarrow>
     ch \<in> set ''!#$%&*+.^_`|~-0123456789abcdefghijklmnopqrstuvwxyzABCDEFGHIJKLMNOPQRSTUVWXYZ''
     \<or> ch = CHR 0x27"

definition trim :: "string \<Rightarrow> string" where
  "trim x = rev (dropWhile whitespace (rev (dropWhile whitespace x)))"

definition example_parse :: "string \<Rightarrow> string option" where
  "example_parse x =
     (let t = trim (takeWhile (\<lambda>ch. ch \<noteq> CHR '';'') x);
          major = takeWhile (\<lambda>ch. ch \<noteq> CHR ''/'') t;
          minor = drop (length major + 1) t
      in if major \<noteq> [] \<and> minor \<noteq> [] \<and> length major < length t
            \<and> list_all token_char major \<and> list_all token_char minor
         then Some (toLowerCase t) else None)"

definition example_md5Base64 :: "bytes \<Rightarrow> string" where
  "example_md5Base64 b = (if b = ''X'' then ''AhKbuGEGHRoFLFkuLcazgw=='' else [])"

definition example_cfg :: cfg where
  "example_cfg =
     \<lparr>injectChunk = ''X'', etag = None, md5Base64 = example_md5Base64,
      Number = example_Number, inspect = example_inspect, parse = example_parse\<rparr>"

section \<open>Notions used in the statements\<close>

text \<open>
  Whether the tokenizer, started in state \<open>t\<close>, reports an opening body tag while it
  consumes \<open>data\<close>.
\<close>

fun finds_body :: "tstate \<Rightarrow> bytes \<Rightarrow> bool" where
  "finds_body t [] = False"
| "finds_body t (x # xs) =
     (case tok_step t x of
        (t', None) \<Rightarrow> finds_body t' xs
      | (t', Some tagName) \<Rightarrow> tagName = ''body'' \<or> finds_body t' xs)"

text \<open>Two closures that agree on everything but the header store.\<close>

definition same_body :: "state \<Rightarrow> state \<Rightarrow> bool" where
  "same_body s t \<longleftrightarrow>
     buffers s = buffers t \<and> willEnd s = willEnd t \<and> len s = len t
     \<and> isHtml s = isHtml t \<and> parser s = parser t \<and> out s = out t"

text \<open>
  The data and the arguments with which \<^verbatim>\<open>res.end\<close> calls \<^verbatim>\<open>res.write\<close>, and the
  condition under which \<^verbatim>\<open>res.write\<close> rejects its encoding argument.
\<close>

fun end_data :: "arg \<Rightarrow> bytes" where
  "end_data (Str d) = d"
| "end_data _ = []"

fun end_args :: "arg \<Rightarrow> arg list \<Rightarrow> arg list" where
  "end_args (Fun f) restArgs = [Fun f]"
| "end_args _ restArgs = restArgs"

definition rejected :: "state \<Rightarrow> arg list \<Rightarrow> bool" where
  "rejected s restArgs \<longleftrightarrow>
     isHtml s \<and> truthy (first_arg restArgs) \<and> \<not> is_function (first_arg restArgs)
     \<and> \<not> utf8_test (first_arg restArgs)"

text \<open>
  Before end is called: \<^verbatim>\<open>len\<close> counts the backlog as long as the parser is alive or
  chunks are pending.
\<close>

definition backlog_counted :: "state \<Rightarrow> bool" where
  "backlog_counted s \<longleftrightarrow>
     \<not> willEnd s
     \<and> (parser s \<noteq> None \<or> buffers s \<noteq> [] \<longrightarrow> len s = total_length (buffers s))"

section \<open>What each function leaves unchanged\<close>

lemma setHeader_sel [simp]:
  "buffers (setHeader s n v) = buffers s" "willEnd (setHeader s n v) = willEnd s"
  "len (setHeader s n v) = len s" "isHtml (setHeader s n v) = isHtml s"
  "parser (setHeader s n v) = parser s" "out (setHeader s n v) = out s"
  "headers (setHeader s n v) = (headers s)(toLowerCase n \<mapsto> v)"
  by (simp_all add: setHeader_def)

lemma emit_error_sel [simp]:
  "buffers (emit_error s e) = buffers s" "willEnd (emit_error s e) = willEnd s"
  "len (emit_error s e) = len s" "isHtml (emit_error s e) = isHtml s"
  "parser (emit_error s e) = parser s" "out (emit_error s e) = out s @ [Emit e]"
  "headers (emit_error s e) = headers s"
  by (simp_all add: emit_error_def)

lemma parser_end_sel [simp]:
  "buffers (parser_end s) = buffers s" "willEnd (parser_end s) = willEnd s"
  "len (parser_end s) = len s" "isHtml (parser_end s) = isHtml s"
  "parser (parser_end s) = None" "out (parser_end s) = out s"
  "headers (parser_end s) = headers s"
  by (simp_all add: parser_end_def)

lemma onopentag_frame [simp]:
  "willEnd (onopentag c s t) = willEnd s" "isHtml (onopentag c s t) = isHtml s"
  "out (onopentag c s t) = out s" "headers (onopentag c s t) = headers s"
  by (simp_all add: onopentag_def Let_def split: option.splits)

lemma parser_write_frame [simp]:
  "willEnd (parser_write c s d) = willEnd s" "isHtml (parser_write c s d) = isHtml s"
  "out (parser_write c s d) = out s" "headers (parser_write c s d) = headers s"
  by (induction d arbitrary: s; simp split: option.splits prod.splits)+

lemma parseComplete_frame [simp]:
  "willEnd (parseComplete c s d) = willEnd s" "isHtml (parseComplete c s d) = isHtml s"
  "out (parseComplete c s d) = out s" "headers (parseComplete c s d) = headers s"
  by (simp_all add: parseComplete_def split: option.splits)

lemma adjustContentLength_frame [simp]:
  "willEnd (adjustContentLength c s v) = willEnd s" "isHtml (adjustContentLength c s v) = isHtml s"
  "buffers (adjustContentLength c s v) = buffers s" "len (adjustContentLength c s v) = len s"
  "parser (adjustContentLength c s v) = parser s"
  by (simp_all add: adjustContentLength_def split: option.splits)

lemma call_if_function_sel [simp]:
  "buffers (call_if_function s a) = buffers s" "willEnd (call_if_function s a) = willEnd s"
  "len (call_if_function s a) = len s" "isHtml (call_if_function s a) = isHtml s"
  "parser (call_if_function s a) = parser s" "headers (call_if_function s a) = headers s"
  by (cases a; simp)+

lemma write_tail_sel [simp]:
  "buffers (write_tail s d a) = buffers s" "willEnd (write_tail s d a) = willEnd s"
  "len (write_tail s d a) = len s" "isHtml (write_tail s d a) = isHtml s"
  "parser (write_tail s d a) = parser s" "headers (write_tail s d a) = headers s"
  by (simp_all add: write_tail_def)

lemma res_write_frame [simp]:
  "willEnd (res_write c s d a) = willEnd s" "isHtml (res_write c s d a) = isHtml s"
  "headers (res_write c s d a) = headers s"
  by (simp_all add: res_write_def Let_def)

lemma res_end_frame [simp]:
  "willEnd (res_end c s d a) = True" "isHtml (res_end c s d a) = isHtml s"
  "headers (res_end c s d a) = headers s"
  by (simp_all add: res_end_def Let_def split: arg.splits)

lemma res_setHeader_isHtml:
  "res_setHeader c s n v = Inr s' \<Longrightarrow> isHtml s \<Longrightarrow> isHtml s'"
  by (auto simp: res_setHeader_def Let_def split: hval.splits option.splits if_splits)

lemma exec_isHtml: "isHtml s \<Longrightarrow> isHtml (exec c s x)"
  by (cases x) (auto split: sum.splits dest: res_setHeader_isHtml)

lemma run_isHtml: "isHtml s \<Longrightarrow> isHtml (run c s xs)"
  by (induction xs arbitrary: s) (simp_all add: exec_isHtml)

lemma out_write_tail_Emit: "filter is_Emit (out (write_tail s d a)) = filter is_Emit (out s)"
  by (simp add: write_tail_def)

lemma out_call_if_function_Emit:
  "filter is_Emit (out (call_if_function s a)) = filter is_Emit (out s)"
  by (cases a) simp_all

section \<open>Invalid Content-Length values\<close>

text \<open>
  C6. A content-length value that does not convert to a non-negative integer makes
  \<^verbatim>\<open>adjustContentLength\<close>, and so the wrapped setHeader called with a scalar value
  under any spelling of the name, emit an error on the response instead of throwing:
  the call returns normally, the only change is the emitted error, the header store is
  untouched, and the message is the RFC 7230 sentence followed by the inspected value.
\<close>

theorem C6_invalid_content_length:
  assumes "\<forall>n. Number c v = Some n \<longrightarrow> n < 0"
  shows "adjustContentLength c s v = s\<lparr>out := out s @ [Emit (content_length_error c v)]\<rparr>
    \<and> (\<forall>headerName x. toLowerCase headerName = ''content-length'' \<and> v = Scalar x \<longrightarrow>
          res_setHeader c s headerName v
            = Inr (s\<lparr>out := out s @ [Emit (content_length_error c v)]\<rparr>))
    \<and> headers (adjustContentLength c s v) = headers s
    \<and> message (content_length_error c v)
        = ''According to RFC7230, Content-Length header must be a non-negative integer https://tools.ietf.org/html/rfc7230#section-3.3.2, but it was ''
            @ inspect c v @ ''.''"
proof (intro conjI allI impI)
  show a: "adjustContentLength c s v = s\<lparr>out := out s @ [Emit (content_length_error c v)]\<rparr>"
    using assms by (cases "Number c v") (simp_all add: adjustContentLength_def emit_error_def)
  show "res_setHeader c s headerName v
          = Inr (s\<lparr>out := out s @ [Emit (content_length_error c v)]\<rparr>)"
    if "toLowerCase headerName = ''content-length'' \<and> v = Scalar x" for headerName x
  proof -
    have "res_setHeader c s headerName v = Inr (adjustContentLength c s v)"
      using that by (simp add: res_setHeader_def)
    then show ?thesis by (simp only: a)
  qed
  show "headers (adjustContentLength c s v) = headers s"
    by (simp add: a)
  show "message (content_length_error c v)
        = ''According to RFC7230, Content-Length header must be a non-negative integer https://tools.ietf.org/html/rfc7230#section-3.3.2, but it was ''
            @ inspect c v @ ''.''"
    unfolding content_length_error_def by (rule js_error.sel)
qed

theorem C6_invalid_content_length_witness:
  "Number example_cfg (Scalar ''-1'') = Some (- 1)
   \<and> res_setHeader example_cfg (main example_cfg Map.empty) ''Content-Length'' (Scalar ''-1'')
       = Inr ((main example_cfg Map.empty)
               \<lparr>out := [Emit (Error ''According to RFC7230, Content-Length header must be a non-negative integer https://tools.ietf.org/html/rfc7230#section-3.3.2, but it was '-1'.'' None)]\<rparr>)"
proof -
  have h: "\<forall>n. Number example_cfg (Scalar ''-1'') = Some n \<longrightarrow> n < 0"
    by (simp add: example_cfg_def is_digit_def)
  have l: "toLowerCase ''Content-Length'' = ''content-length''"
    by (simp add: toLowerCase_def to_lower_def)
  have o: "out (main example_cfg Map.empty) = []"
    by (simp add: main_def)
  have n: "Number example_cfg (Scalar ''-1'') = Some (- 1)"
    by (simp add: example_cfg_def is_digit_def)
  show ?thesis
    using n l o C6_invalid_content_length [OF h, of "main example_cfg Map.empty"]
    by (simp add: content_length_error_def example_cfg_def)
qed

section \<open>Encoding check of write\<close>

text \<open>
  C7. While \<^verbatim>\<open>isHtml\<close> holds, a write whose first extra argument is a non-empty
  string that does not match \<^verbatim>\<open>/utf-?8/ui\<close> only emits an error naming that encoding:
  nothing is buffered and nothing reaches the underlying write or end. When \<^verbatim>\<open>isHtml\<close>
  does not hold, or when that argument is a function, the write emits no error.
\<close>

theorem C7_encoding:
  "(isHtml s \<and> first_arg restArgs = Str enc \<and> enc \<noteq> [] \<and> \<not> utf8_test (Str enc) \<longrightarrow>
      res_write c s data restArgs = s\<lparr>out := out s @ [Emit (encoding_error (Str enc))]\<rparr>
      \<and> message (encoding_error (Str enc))
          = ''HTML must be UTF-8 encoded https://github.com/w3c/html/pull/1273, but encoded in ''
              @ enc @ ''.'')
   \<and> (\<not> isHtml s \<or> is_function (first_arg restArgs) \<longrightarrow>
        filter is_Emit (out (res_write c s data restArgs)) = filter is_Emit (out s))"
  by (auto simp: res_write_def Let_def emit_error_def encoding_error_def
        out_write_tail_Emit out_call_if_function_Emit)

theorem C7_encoding_witness:
  "res_write example_cfg
     (run example_cfg (main example_cfg Map.empty) [SetHeader ''content-type'' (Scalar ''text/html'')])
     ''abc'' [Str ''ascii'']
   = (run example_cfg (main example_cfg Map.empty) [SetHeader ''content-type'' (Scalar ''text/html'')])
       \<lparr>out := [Emit (Error ''HTML must be UTF-8 encoded https://github.com/w3c/html/pull/1273, but encoded in ascii.'' (Some ''ERR_INVALID_HTML_ENCODING''))]\<rparr>
   \<and> filter is_Emit (out (res_write example_cfg (main example_cfg Map.empty) ''abc'' [Str ''ascii''])) = []"
proof -
  let ?s = "run example_cfg (main example_cfg Map.empty) [SetHeader ''content-type'' (Scalar ''text/html'')]"
  let ?t = "main example_cfg Map.empty"
  have s: "isHtml ?s" "out ?s = []"
    by (simp_all add: main_def res_setHeader_def toLowerCase_def to_lower_def example_cfg_def
          example_parse_def trim_def whitespace_def token_char_def)
  have t: "\<not> isHtml ?t" "out ?t = []"
    by (simp_all add: main_def)
  have u: "\<not> utf8_test (Str ''ascii'')"
    by (simp add: toLowerCase_def to_lower_def)
  show ?thesis
    using s t u
      C7_encoding [of ?s "[Str ''ascii'']" "''ascii''" example_cfg "''abc''"]
      C7_encoding [of ?t "[Str ''ascii'']" "''ascii''" example_cfg "''abc''"]
    by (simp add: encoding_error_def)
qed

section \<open>Headers at attach time and later\<close>

lemma digest_md5:
  "etag c = None \<or> etag c = Some (md5Base64 c (injectChunk c)) \<Longrightarrow>
     digest c = md5Base64 c (injectChunk c)"
  by (auto simp: digest_def)

lemma TMP_neq [simp]:
  "TMP_HEADER_NAME \<noteq> ''content-type''" "TMP_HEADER_NAME \<noteq> ''content-length''"
  "TMP_HEADER_NAME \<noteq> ''etag''"
  "''content-type'' \<noteq> TMP_HEADER_NAME" "''content-length'' \<noteq> TMP_HEADER_NAME"
  "''etag'' \<noteq> TMP_HEADER_NAME"
  by (simp_all add: TMP_HEADER_NAME_def)

lemma main_isHtml:
  "isHtml (main c hs) \<longleftrightarrow> (hs(TMP_HEADER_NAME := None)) ''content-type'' = Some (Scalar ''text/html'')"
  by (simp add: main_def Let_def split: option.splits)

lemma adjustContentLength_headers_other:
  "k \<noteq> ''content-length'' \<Longrightarrow> headers (adjustContentLength c s v) k = headers s k"
  by (simp add: adjustContentLength_def toLowerCase_def to_lower_def split: option.splits)

lemma main_etag:
  assumes "isHtml (main c hs)" and "hs ''etag'' = Some e"
  shows "headers (main c hs) ''etag'' = Some (Scalar (to_string e @ digest c))"
proof -
  have ct: "hs ''content-type'' = Some (Scalar ''text/html'')"
    using assms(1) by (simp add: main_isHtml)
  have l: "toLowerCase ''etag'' = ''etag''"
    by (simp add: toLowerCase_def to_lower_def)
  show ?thesis
    using ct assms(2)
    by (simp add: main_def Let_def l adjustContentLength_headers_other split: option.splits)
qed

lemma res_setHeader_etag:
  "isHtml s \<Longrightarrow> toLowerCase headerName = ''etag'' \<Longrightarrow>
     res_setHeader c s headerName (Scalar x)
       = Inr (s\<lparr>headers := (headers s)(''etag'' \<mapsto> Scalar (x @ digest c))\<rparr>)"
  by (simp add: res_setHeader_def setHeader_def)

lemma lower_names [simp]:
  "toLowerCase ''content-length'' = ''content-length''"
  "toLowerCase ''content-type'' = ''content-type''"
  "toLowerCase ''etag'' = ''etag''"
  by (simp_all add: toLowerCase_def to_lower_def)

lemma adjustContentLength_html:
  "isHtml s \<Longrightarrow> Number c v = Some n \<Longrightarrow> 0 \<le> n \<Longrightarrow>
     adjustContentLength c s v
       = s\<lparr>headers := (headers s)(''content-length'' \<mapsto>
               Scalar (string_of_nat (nat n + length (injectChunk c))))\<rparr>"
  by (simp add: adjustContentLength_def setHeader_def)

lemma res_setHeader_not_html_type:
  "toLowerCase headerName = ''content-type'' \<Longrightarrow> parse c x = Some t \<Longrightarrow> t \<noteq> ''text/html'' \<Longrightarrow>
   parser s = Some p \<Longrightarrow>
     res_setHeader c s headerName (Scalar x)
       = Inr (s\<lparr>parser := None, headers := (headers s)(''content-type'' \<mapsto> Scalar x)\<rparr>)"
  by (simp add: res_setHeader_def setHeader_def parser_end_def)

section \<open>The etag suffix\<close>

text \<open>
  C4. While \<^verbatim>\<open>isHtml\<close> holds, an etag value \<open>E\<close> set through the wrapped setHeader
  under any spelling of the name is stored as \<open>E\<close> followed by the digest of the
  payload; an etag \<open>E\<close> already in the header store when \<^verbatim>\<open>main\<close> finds the response
  to be HTML is replaced by \<open>E\<close> followed by the digest. No write or end touches the
  header store afterwards, so the suffix stays whether or not a body tag is found.
\<close>

theorem C4_etag_suffix:
  "(isHtml s \<and> toLowerCase headerName = ''etag'' \<longrightarrow>
      res_setHeader c s headerName (Scalar E)
        = Inr (s\<lparr>headers := (headers s)(''etag'' \<mapsto> Scalar (E @ digest c))\<rparr>))
   \<and> (isHtml (main c hs) \<and> hs ''etag'' = Some (Scalar E) \<longrightarrow>
        headers (main c hs) ''etag'' = Some (Scalar (E @ digest c)))
   \<and> headers (res_write c s data restArgs) = headers s
   \<and> headers (res_end c s d restArgs) = headers s"
  using res_setHeader_etag [of s headerName c E] main_etag [of c hs "Scalar E"]
  by simp

theorem C4_etag_suffix_witness:
  "res_setHeader example_cfg
     (run example_cfg (main example_cfg Map.empty) [SetHeader ''content-type'' (Scalar ''text/html'')])
     ''ETag'' (Scalar ''abc'')
   = Inr ((run example_cfg (main example_cfg Map.empty) [SetHeader ''content-type'' (Scalar ''text/html'')])
            \<lparr>headers := [''content-type'' \<mapsto> Scalar ''text/html'',
                         ''etag'' \<mapsto> Scalar ''abcAhKbuGEGHRoFLFkuLcazgw=='']\<rparr>)
   \<and> headers (main example_cfg [''content-type'' \<mapsto> Scalar ''text/html'', ''etag'' \<mapsto> Scalar ''abc''])
         ''etag''
       = Some (Scalar ''abcAhKbuGEGHRoFLFkuLcazgw=='')"
proof -
  let ?s = "run example_cfg (main example_cfg Map.empty) [SetHeader ''content-type'' (Scalar ''text/html'')]"
  let ?hs = "[''content-type'' \<mapsto> Scalar ''text/html'', ''etag'' \<mapsto> Scalar ''abc'']"
  have s: "isHtml ?s" "headers ?s = [''content-type'' \<mapsto> Scalar ''text/html'']"
    by (simp_all add: main_def res_setHeader_def toLowerCase_def to_lower_def example_cfg_def
          example_parse_def trim_def whitespace_def token_char_def)
  have l: "toLowerCase ''ETag'' = ''etag''"
    by (simp add: toLowerCase_def to_lower_def)
  have m: "isHtml (main example_cfg ?hs)" "?hs ''etag'' = Some (Scalar ''abc'')"
    by (simp_all add: main_isHtml)
  have d: "digest example_cfg = ''AhKbuGEGHRoFLFkuLcazgw==''"
    by (simp add: digest_def example_cfg_def example_md5Base64_def)
  show ?thesis
    using s l m d
      C4_etag_suffix [of ?s "''ETag''" example_cfg "''abc''" ?hs "[]" "[]" Undefined]
    by simp
qed

section \<open>isHtml never reverts\<close>

text \<open>
  C10. Once \<^verbatim>\<open>isHtml\<close> holds it holds after every further sequence of calls. A
  content-type whose media type is not text/html, set while the parser is alive, ends
  the parser and leaves \<^verbatim>\<open>isHtml\<close> set, so an etag set afterwards still gets the
  digest appended and a content-length set afterwards is still increased by the length
  of the payload.
\<close>

theorem C10_isHtml_monotone:
  "(isHtml s \<longrightarrow> isHtml (run c s xs))
   \<and> (isHtml s \<and> toLowerCase headerName = ''content-type'' \<and> parse c x = Some t
        \<and> t \<noteq> ''text/html'' \<and> parser s = Some p \<longrightarrow>
        (\<exists>s'. res_setHeader c s headerName (Scalar x) = Inr s'
           \<and> isHtml s' \<and> parser s' = None
           \<and> res_setHeader c s' ''etag'' (Scalar E)
               = Inr (s'\<lparr>headers := (headers s')(''etag'' \<mapsto> Scalar (E @ digest c))\<rparr>)
           \<and> (\<forall>v n. Number c v = Some n \<and> 0 \<le> n \<longrightarrow>
                 adjustContentLength c s' v
                   = s'\<lparr>headers := (headers s')(''content-length'' \<mapsto>
                           Scalar (string_of_nat (nat n + length (injectChunk c))))\<rparr>)))"
proof (intro conjI impI)
  show "isHtml (run c s xs)" if "isHtml s"
    using that by (rule run_isHtml)
next
  assume a: "isHtml s \<and> toLowerCase headerName = ''content-type'' \<and> parse c x = Some t
        \<and> t \<noteq> ''text/html'' \<and> parser s = Some p"
  let ?s' = "s\<lparr>parser := None, headers := (headers s)(''content-type'' \<mapsto> Scalar x)\<rparr>"
  have r: "res_setHeader c s headerName (Scalar x) = Inr ?s'"
    using a by (simp add: res_setHeader_not_html_type)
  have h: "isHtml ?s'" "parser ?s' = None"
    using a by simp_all
  have e: "res_setHeader c ?s' ''etag'' (Scalar E)
             = Inr (?s'\<lparr>headers := (headers ?s')(''etag'' \<mapsto> Scalar (E @ digest c))\<rparr>)"
    using h(1) by (rule res_setHeader_etag) simp
  have l: "adjustContentLength c ?s' v
             = ?s'\<lparr>headers := (headers ?s')(''content-length'' \<mapsto>
                     Scalar (string_of_nat (nat n + length (injectChunk c))))\<rparr>"
    if "Number c v = Some n \<and> 0 \<le> n" for v n
    using h(1) that by (simp add: adjustContentLength_html)
  show "\<exists>s'. res_setHeader c s headerName (Scalar x) = Inr s'
           \<and> isHtml s' \<and> parser s' = None
           \<and> res_setHeader c s' ''etag'' (Scalar E)
               = Inr (s'\<lparr>headers := (headers s')(''etag'' \<mapsto> Scalar (E @ digest c))\<rparr>)
           \<and> (\<forall>v n. Number c v = Some n \<and> 0 \<le> n \<longrightarrow>
                 adjustContentLength c s' v
                   = s'\<lparr>headers := (headers s')(''content-length'' \<mapsto>
                           Scalar (string_of_nat (nat n + length (injectChunk c))))\<rparr>)"
    using r h e l by blast
qed

theorem C10_isHtml_monotone_witness:
  "isHtml (run example_cfg
             (run example_cfg (main example_cfg Map.empty) [SetHeader ''content-type'' (Scalar ''text/html'')])
             [SetHeader ''content-type'' (Scalar ''text/plain''), WriteCall ''<body>'' []])
   \<and> (\<exists>s'. res_setHeader example_cfg
                (run example_cfg (main example_cfg Map.empty) [SetHeader ''content-type'' (Scalar ''text/html'')])
                ''content-type'' (Scalar ''text/plain'') = Inr s'
          \<and> isHtml s' \<and> parser s' = None
          \<and> res_setHeader example_cfg s' ''etag'' (Scalar ''abc'')
              = Inr (s'\<lparr>headers := (headers s')(''etag'' \<mapsto> Scalar (''abc'' @ digest example_cfg))\<rparr>))"
proof -
  let ?s = "run example_cfg (main example_cfg Map.empty) [SetHeader ''content-type'' (Scalar ''text/html'')]"
  let ?xs = "[SetHeader ''content-type'' (Scalar ''text/plain''), WriteCall ''<body>'' []]"
  have s: "isHtml ?s" "parser ?s = Some new_Parser"
    by (simp_all add: main_def res_setHeader_def example_cfg_def
          example_parse_def trim_def whitespace_def token_char_def toLowerCase_def to_lower_def)
  have t: "parse example_cfg ''text/plain'' = Some ''text/plain''"
    by (simp add: example_cfg_def example_parse_def trim_def whitespace_def token_char_def
          toLowerCase_def to_lower_def)
  have u: "''text/plain'' \<noteq> ''text/html''"
    by simp
  note inst = C10_isHtml_monotone [of ?s example_cfg ?xs
        "''content-type''" "''text/plain''" "''text/plain''" new_Parser "''abc''"]
  have a: "isHtml (run example_cfg ?s ?xs)"
    using inst [THEN conjunct1] s(1) by (rule mp)
  have pre: "isHtml ?s \<and> toLowerCase ''content-type'' = ''content-type''
     \<and> parse example_cfg ''text/plain'' = Some ''text/plain''
     \<and> ''text/plain'' \<noteq> ''text/html'' \<and> parser ?s = Some new_Parser"
    using s t u lower_names(2) by (intro conjI)
  from inst [THEN conjunct2, THEN mp, OF pre]
  obtain s' where b: "res_setHeader example_cfg ?s ''content-type'' (Scalar ''text/plain'') = Inr s'"
      "isHtml s'" "parser s' = None"
      "res_setHeader example_cfg s' ''etag'' (Scalar ''abc'')
         = Inr (s'\<lparr>headers := (headers s')(''etag'' \<mapsto> Scalar (''abc'' @ digest example_cfg))\<rparr>)"
    by (elim exE conjE)
  show ?thesis
    by (intro conjI exI [of _ s'] a b)
qed

section \<open>Data given to end after the parser has stopped\<close>

text \<open>
  C1. For an HTML response whose bytes hold a body tag, the bytes delivered should be
  the bytes written with the payload inserted after the first opening body tag. With
  content-type text/html set, \<^verbatim>\<open>write('<body>')\<close> finds the tag and keeps the spliced
  chunk pending; \<^verbatim>\<open>end('</body>')\<close> then pushes its data without adding to \<^verbatim>\<open>len\<close>,
  and \<^verbatim>\<open>Buffer.concat(buffers, len)\<close> cuts the data of end off: the underlying end
  receives \<^verbatim>\<open><body>X\<close> where \<^verbatim>\<open><body>X</body>\<close> was due.
\<close>

theorem C1_end_data_truncated:
  "out (run example_cfg (main example_cfg Map.empty)
          [SetHeader ''content-type'' (Scalar ''text/html''),
           WriteCall ''<body>'' [],
           EndCall (Str ''</body>'') []])
     = [End ''<body>X'' []]"
  by code_simp

text \<open>
  C8. \<^verbatim>\<open>len\<close> should be the sum of the lengths of the chunks of \<^verbatim>\<open>buffers\<close> at every
  point, the accumulation at end time included. On the same calls the backlog holds 14
  bytes at the end while \<^verbatim>\<open>len\<close> is 7: line 165 pushes the data of end and leaves
  \<^verbatim>\<open>len\<close> as it was, where line 147 adds the length.
\<close>

theorem C8_len_not_updated:
  "len (run example_cfg (main example_cfg Map.empty)
          [SetHeader ''content-type'' (Scalar ''text/html''),
           WriteCall ''<body>'' [],
           EndCall (Str ''</body>'') []]) = 7
   \<and> buffers (run example_cfg (main example_cfg Map.empty)
          [SetHeader ''content-type'' (Scalar ''text/html''),
           WriteCall ''<body>'' [],
           EndCall (Str ''</body>'') []]) = [''<body>X'', ''</body>'']
   \<and> total_length [''<body>X'', ''</body>''] = 14"
  by code_simp

section \<open>A content-length set while the response is not HTML\<close>

text \<open>
  C2. A content-length \<open>L\<close> set through the wrapped setHeader while \<^verbatim>\<open>isHtml\<close> does not
  hold should reach the response unchanged. The wrapper hands the value to
  \<^verbatim>\<open>adjustContentLength\<close> and returns; that function calls the original setHeader only
  when \<^verbatim>\<open>isHtml\<close> holds, so for a text/plain response the header is never set.
\<close>

theorem C2_content_length_not_forwarded:
  "headers (run example_cfg (main example_cfg Map.empty)
          [SetHeader ''content-type'' (Scalar ''text/plain''),
           SetHeader ''content-length'' (Scalar ''2'')]) ''content-length'' = None
   \<and> headers (run example_cfg (main example_cfg Map.empty)
          [SetHeader ''content-type'' (Scalar ''text/plain''),
           SetHeader ''content-length'' (Scalar ''2'')]) ''content-type''
       = Some (Scalar ''text/plain'')
   \<and> Number example_cfg (Scalar ''2'') = Some 2"
  by code_simp

section \<open>After the parser has ended\<close>

lemma res_setHeader_parser_None:
  "res_setHeader c s n v = Inr s' \<Longrightarrow> parser s = None \<Longrightarrow> parser s' = None"
  by (auto simp: res_setHeader_def Let_def split: hval.splits option.splits if_splits)

lemma res_write_parser_None: "parser s = None \<Longrightarrow> parser (res_write c s d a) = None"
  by (simp add: res_write_def Let_def)

lemma exec_parser_None: "parser s = None \<Longrightarrow> parser (exec c s x) = None"
  by (cases x)
    (auto simp: res_write_parser_None res_end_def Let_def
       split: sum.splits arg.splits dest: res_setHeader_parser_None)

lemma run_parser_None: "parser s = None \<Longrightarrow> parser (run c s xs) = None"
  by (induction xs arbitrary: s) (simp_all add: exec_parser_None)

lemma same_body_refl: "same_body s s"
  by (simp add: same_body_def)

lemma same_body_adjustContentLength:
  "same_body s t \<Longrightarrow>
     same_body (adjustContentLength c s v) (adjustContentLength (c\<lparr>injectChunk := q\<rparr>) t v)"
  by (simp add: same_body_def adjustContentLength_def content_length_error_def
        split: option.splits)

lemma same_body_setHeader:
  "same_body s t \<Longrightarrow> parser s = None \<Longrightarrow>
     (case res_setHeader c s n v of Inl e \<Rightarrow> s | Inr s' \<Rightarrow> s') = s1 \<Longrightarrow>
     (case res_setHeader (c\<lparr>injectChunk := q\<rparr>) t n v of Inl e \<Rightarrow> t | Inr t' \<Rightarrow> t') = t1 \<Longrightarrow>
     same_body s1 t1"
  using same_body_adjustContentLength [of s t c v q]
  by (cases v) (auto simp: res_setHeader_def Let_def same_body_def split: option.splits if_splits)

lemma same_body_write:
  "same_body s t \<Longrightarrow> parser s = None \<Longrightarrow>
     same_body (res_write c s d a) (res_write (c\<lparr>injectChunk := q\<rparr>) t d a)"
  by (simp add: res_write_def Let_def same_body_def write_tail_def)

lemma same_body_end:
  assumes "same_body s t" and "parser s = None"
  shows "same_body (res_end c s d a) (res_end (c\<lparr>injectChunk := q\<rparr>) t d a)"
proof -
  have b: "same_body (s\<lparr>willEnd := True\<rparr>) (t\<lparr>willEnd := True\<rparr>)"
    using assms(1) by (simp add: same_body_def)
  have p: "parser (s\<lparr>willEnd := True\<rparr>) = None"
    using assms(2) by simp
  show ?thesis
    unfolding res_end_def Let_def
    by (cases d) (simp_all add: same_body_write [OF b p])
qed

lemma same_body_exec:
  "same_body s t \<Longrightarrow> parser s = None \<Longrightarrow>
     same_body (exec c s x) (exec (c\<lparr>injectChunk := q\<rparr>) t x)"
  by (cases x) (simp_all add: same_body_write same_body_end same_body_setHeader)

lemma same_body_run:
  "same_body s t \<Longrightarrow> parser s = None \<Longrightarrow>
     same_body (run c s xs) (run (c\<lparr>injectChunk := q\<rparr>) t xs)"
proof (induction xs arbitrary: s t)
  case Nil
  then show ?case by simp
next
  case (Cons x xs)
  have "same_body (exec c s x) (exec (c\<lparr>injectChunk := q\<rparr>) t x)"
    using Cons.prems by (rule same_body_exec)
  moreover have "parser (exec c s x) = None"
    using Cons.prems(2) by (rule exec_parser_None)
  ultimately show ?case
    using Cons.IH by simp
qed

lemma run_payload_independent:
  "parser s = None \<Longrightarrow> out (run c s xs) = out (run (c\<lparr>injectChunk := q\<rparr>) s xs)"
  using same_body_run [OF same_body_refl, of s c xs q] by (simp add: same_body_def)

lemma onopentag_not_html:
  "\<not> isHtml s \<Longrightarrow> parser s = Some p \<Longrightarrow> onopentag c s ''body'' = s\<lparr>parser := None\<rparr>"
  by (simp add: onopentag_def parser_end_def)

lemma onopentag_not_html_frame:
  "\<not> isHtml s \<Longrightarrow> buffers (onopentag c s t) = buffers s \<and> len (onopentag c s t) = len s"
  by (simp add: onopentag_def split: option.splits)

lemma parser_write_not_html_frame:
  "\<not> isHtml s \<Longrightarrow>
     buffers (parser_write c s d) = buffers s \<and> len (parser_write c s d) = len s"
  by (induction d arbitrary: s) (simp_all add: onopentag_not_html_frame split: option.splits prod.splits)

lemma parser_write_None: "parser s = None \<Longrightarrow> parser_write c s d = s"
  by (cases d) simp_all

lemma parser_write_finds_body:
  "\<not> isHtml s \<Longrightarrow> parser s = Some p \<Longrightarrow> finds_body (tok p) d \<Longrightarrow>
     parser (parser_write c s d) = None"
proof (induction d arbitrary: s p)
  case Nil
  then show ?case by simp
next
  case (Cons x xs)
  obtain t' ev where st: "tok_step (tok p) x = (t', ev)"
    by (cases "tok_step (tok p) x")
  show ?case
  proof (cases ev)
    case None
    then show ?thesis
      using Cons.prems st Cons.IH [of "s\<lparr>parser := Some (p\<lparr>tok := t', pos := pos p + 1\<rparr>)\<rparr>"]
      by simp
  next
    case (Some tagName)
    let ?s1 = "s\<lparr>parser := Some (p\<lparr>tok := t', pos := pos p + 1, endIndex := pos p\<rparr>)\<rparr>"
    show ?thesis
    proof (cases "tagName = ''body''")
      case True
      then have "parser (onopentag c ?s1 tagName) = None"
        using Cons.prems(1) by (simp add: onopentag_def)
      then show ?thesis
        using Cons.prems(2) st Some by (simp add: parser_write_None)
    next
      case False
      then have o: "onopentag c ?s1 tagName = ?s1"
        by (simp add: onopentag_def)
      show ?thesis
        using Cons.prems st Some False o
          Cons.IH [of ?s1 "p\<lparr>tok := t', pos := pos p + 1, endIndex := pos p\<rparr>"]
        by simp
    qed
  qed
qed

lemma res_write_not_html_finds:
  assumes "\<not> isHtml s" and "\<not> willEnd s" and "parser s = Some p" and "finds_body (tok p) data"
  shows "parser (res_write c s data restArgs) = None
    \<and> buffers (res_write c s data restArgs) = buffers s @ [data]
    \<and> len (res_write c s data restArgs) = len s + length data"
proof -
  let ?s1 = "s\<lparr>len := len s + length data, buffers := buffers s @ [data]\<rparr>"
  have w: "res_write c s data restArgs = call_if_function (parser_write c ?s1 data) (last_arg restArgs)"
    using assms(1-3) by (simp add: res_write_def Let_def)
  have n: "\<not> isHtml ?s1" "parser ?s1 = Some p"
    using assms(1,3) by simp_all
  have p: "parser (parser_write c ?s1 data) = None"
    using n assms(4) by (rule parser_write_finds_body)
  have f: "buffers (parser_write c ?s1 data) = buffers ?s1 \<and> len (parser_write c ?s1 data) = len ?s1"
    using n(1) by (rule parser_write_not_html_frame)
  show ?thesis
    using w p f by simp
qed

lemma res_end_not_html:
  assumes "\<not> isHtml s" and "parser s = Some p"
  shows "parser (res_end c s (Str d) restArgs) = None
    \<and> buffers (res_end c s (Str d) restArgs) = buffers s @ [d]"
proof -
  let ?s1 = "s\<lparr>willEnd := True, len := len s + length d, buffers := buffers s @ [d]\<rparr>"
  have w: "res_end c s (Str d) restArgs = write_tail (parseComplete c ?s1 d) d restArgs"
    using assms by (simp add: res_end_def res_write_def Let_def)
  have n: "\<not> isHtml (?s1\<lparr>parser := Some (p\<lparr>tok := Text, pos := 0\<rparr>)\<rparr>)"
    using assms(1) by simp
  have pc: "parseComplete c ?s1 d
      = parser_end (parser_write c (?s1\<lparr>parser := Some (p\<lparr>tok := Text, pos := 0\<rparr>)\<rparr>) d)"
    using assms(2) by (simp add: parseComplete_def)
  show ?thesis
    unfolding w pc using parser_write_not_html_frame [OF n, of c d] by simp
qed

section \<open>A body tag met before the response is known to be HTML\<close>

text \<open>
  C9. When the parser reports an opening body tag while \<^verbatim>\<open>isHtml\<close> does not hold,
  \<^verbatim>\<open>onopentag\<close> only ends the parser: a write whose data holds the tag, and an end
  called while the parser is alive, leave \<^verbatim>\<open>parser\<close> \<^verbatim>\<open>null\<close> and the backlog equal
  to the chunks written, with nothing inserted. From a closure whose parser is \<^verbatim>\<open>null\<close>,
  every sequence of calls (a later content-type text/html among them) leaves it
  \<^verbatim>\<open>null\<close>, and what reaches the underlying write and end is the same for every
  payload: nothing is ever injected.
\<close>

theorem C9_body_before_html:
  "(\<not> isHtml s \<and> parser s = Some p \<longrightarrow> onopentag c s ''body'' = s\<lparr>parser := None\<rparr>)
   \<and> (\<not> isHtml s \<and> \<not> willEnd s \<and> parser s = Some p \<and> finds_body (tok p) data \<longrightarrow>
        parser (res_write c s data restArgs) = None
        \<and> buffers (res_write c s data restArgs) = buffers s @ [data]
        \<and> len (res_write c s data restArgs) = len s + length data)
   \<and> (\<not> isHtml s \<and> parser s = Some p \<longrightarrow>
        parser (res_end c s (Str data) restArgs) = None
        \<and> buffers (res_end c s (Str data) restArgs) = buffers s @ [data])
   \<and> (parser s = None \<longrightarrow>
        parser (run c s xs) = None
        \<and> out (run c s xs) = out (run (c\<lparr>injectChunk := q\<rparr>) s xs))"
  using onopentag_not_html [of s p c] res_write_not_html_finds [of s p data c restArgs]
    res_end_not_html [of s p c data restArgs] run_parser_None [of s c xs]
    run_payload_independent [of s c xs q]
  by simp

theorem C9_body_before_html_witness:
  "parser (res_write example_cfg (main example_cfg Map.empty) ''<body>'' []) = None
   \<and> buffers (res_write example_cfg (main example_cfg Map.empty) ''<body>'' [])
       = buffers (main example_cfg Map.empty) @ [''<body>'']
   \<and> out (run example_cfg (res_write example_cfg (main example_cfg Map.empty) ''<body>'' [])
             [SetHeader ''content-type'' (Scalar ''text/html''), EndCall (Str ''</body>'') []])
       = out (run (example_cfg\<lparr>injectChunk := ''Y''\<rparr>)
                (res_write example_cfg (main example_cfg Map.empty) ''<body>'' [])
                [SetHeader ''content-type'' (Scalar ''text/html''), EndCall (Str ''</body>'') []])"
proof -
  let ?s0 = "main example_cfg Map.empty"
  let ?s1 = "res_write example_cfg ?s0 ''<body>'' []"
  let ?xs = "[SetHeader ''content-type'' (Scalar ''text/html''), EndCall (Str ''</body>'') []]"
  have h: "\<not> isHtml ?s0" "\<not> willEnd ?s0" "parser ?s0 = Some new_Parser"
    by (simp_all add: main_def)
  have f: "finds_body (tok new_Parser) ''<body>''"
    by (simp add: new_Parser_def toLowerCase_def to_lower_def whitespace_def)
  have a: "parser ?s1 = None \<and> buffers ?s1 = buffers ?s0 @ [''<body>'']
           \<and> len ?s1 = len ?s0 + length ''<body>''"
    using h f C9_body_before_html [of ?s0 new_Parser example_cfg "''<body>''" "[]" "[]" "''Y''"]
    by simp
  then have p: "parser ?s1 = None"
    by (rule conjunct1)
  have b: "out (run example_cfg ?s1 ?xs) = out (run (example_cfg\<lparr>injectChunk := ''Y''\<rparr>) ?s1 ?xs)"
    using p C9_body_before_html [of ?s1 new_Parser example_cfg "''<body>''" "[]" ?xs "''Y''"]
    by simp
  show ?thesis
    using a b by simp
qed

section \<open>Content-type values\<close>

lemma res_setHeader_html_type:
  "toLowerCase headerName = ''content-type'' \<Longrightarrow> parse c x = Some ''text/html'' \<Longrightarrow>
     res_setHeader c s headerName (Scalar x)
       = Inr (s\<lparr>isHtml := True, headers := (headers s)(''content-type'' \<mapsto> Scalar x)\<rparr>)"
  by (simp add: res_setHeader_def setHeader_def)

lemma main_html_type: "hs ''content-type'' = Some (Scalar ''text/html'') \<Longrightarrow> isHtml (main c hs)"
  by (simp add: main_isHtml)

text \<open>
  C3, as the code has it. A content-type set through the wrapped setHeader whose media
  type is text/html sets \<^verbatim>\<open>isHtml\<close>. One whose media type is something else leaves
  \<^verbatim>\<open>isHtml\<close> as it was and, when the parser is alive, ends it; from then on the parser
  stays \<^verbatim>\<open>null\<close> and what reaches the underlying write and end does not depend on the
  payload. A content-type equal to text/html in the header store at attach time makes
  \<^verbatim>\<open>main\<close> set \<^verbatim>\<open>isHtml\<close>.
\<close>

theorem C3_content_type:
  "(toLowerCase headerName = ''content-type'' \<and> parse c x = Some ''text/html'' \<longrightarrow>
      res_setHeader c s headerName (Scalar x)
        = Inr (s\<lparr>isHtml := True, headers := (headers s)(''content-type'' \<mapsto> Scalar x)\<rparr>))
   \<and> (toLowerCase headerName = ''content-type'' \<and> parse c x = Some t \<and> t \<noteq> ''text/html''
        \<and> parser s = Some p \<longrightarrow>
        res_setHeader c s headerName (Scalar x)
          = Inr (s\<lparr>parser := None, headers := (headers s)(''content-type'' \<mapsto> Scalar x)\<rparr>)
        \<and> parser (run c (s\<lparr>parser := None, headers := (headers s)(''content-type'' \<mapsto> Scalar x)\<rparr>) xs)
            = None
        \<and> out (run c (s\<lparr>parser := None, headers := (headers s)(''content-type'' \<mapsto> Scalar x)\<rparr>) xs)
            = out (run (c\<lparr>injectChunk := q\<rparr>)
                     (s\<lparr>parser := None, headers := (headers s)(''content-type'' \<mapsto> Scalar x)\<rparr>) xs))
   \<and> (hs ''content-type'' = Some (Scalar ''text/html'') \<longrightarrow> isHtml (main c hs))"
proof (intro conjI impI)
  show "res_setHeader c s headerName (Scalar x)
        = Inr (s\<lparr>isHtml := True, headers := (headers s)(''content-type'' \<mapsto> Scalar x)\<rparr>)"
    if "toLowerCase headerName = ''content-type'' \<and> parse c x = Some ''text/html''"
    using that by (simp add: res_setHeader_html_type)
next
  let ?s' = "s\<lparr>parser := None, headers := (headers s)(''content-type'' \<mapsto> Scalar x)\<rparr>"
  assume a: "toLowerCase headerName = ''content-type'' \<and> parse c x = Some t \<and> t \<noteq> ''text/html''
        \<and> parser s = Some p"
  show "res_setHeader c s headerName (Scalar x) = Inr ?s'"
    using a by (simp add: res_setHeader_not_html_type)
  have n: "parser ?s' = None"
    by simp
  show "parser (run c ?s' xs) = None"
    using n by (rule run_parser_None)
  show "out (run c ?s' xs) = out (run (c\<lparr>injectChunk := q\<rparr>) ?s' xs)"
    using n by (rule run_payload_independent)
next
  show "isHtml (main c hs)" if "hs ''content-type'' = Some (Scalar ''text/html'')"
    using that by (rule main_html_type)
qed

theorem C3_content_type_witness:
  "res_setHeader example_cfg (main example_cfg Map.empty) ''Content-Type''
     (Scalar ''text/html; charset=utf-8'')
   = Inr ((main example_cfg Map.empty)
            \<lparr>isHtml := True,
             headers := (headers (main example_cfg Map.empty))
                          (''content-type'' \<mapsto> Scalar ''text/html; charset=utf-8'')\<rparr>)
   \<and> res_setHeader example_cfg (main example_cfg Map.empty) ''Content-Type'' (Scalar ''text/plain'')
       = Inr ((main example_cfg Map.empty)
                \<lparr>parser := None,
                 headers := (headers (main example_cfg Map.empty))
                              (''content-type'' \<mapsto> Scalar ''text/plain'')\<rparr>)
   \<and> isHtml (main example_cfg [''content-type'' \<mapsto> Scalar ''text/html''])"
proof -
  let ?s0 = "main example_cfg Map.empty"
  have l: "toLowerCase ''Content-Type'' = ''content-type''"
    by (simp add: toLowerCase_def to_lower_def)
  have p1: "parse example_cfg ''text/html; charset=utf-8'' = Some ''text/html''"
    by (simp add: example_cfg_def example_parse_def trim_def whitespace_def token_char_def
          toLowerCase_def to_lower_def)
  have p2: "parse example_cfg ''text/plain'' = Some ''text/plain''"
    by (simp add: example_cfg_def example_parse_def trim_def whitespace_def token_char_def
          toLowerCase_def to_lower_def)
  have u: "''text/plain'' \<noteq> ''text/html''"
    by simp
  have h: "parser ?s0 = Some new_Parser"
    by (simp add: main_def)
  have m: "[''content-type'' \<mapsto> Scalar ''text/html''] ''content-type'' = Some (Scalar ''text/html'')"
    by simp
  have a: "res_setHeader example_cfg ?s0 ''Content-Type'' (Scalar ''text/html; charset=utf-8'')
        = Inr (?s0\<lparr>isHtml := True, headers := (headers ?s0)
                 (''content-type'' \<mapsto> Scalar ''text/html; charset=utf-8'')\<rparr>)"
    using C3_content_type [of "''Content-Type''" example_cfg "''text/html; charset=utf-8''" ?s0,
        THEN conjunct1, THEN mp, OF conjI [OF l p1]] .
  have b: "res_setHeader example_cfg ?s0 ''Content-Type'' (Scalar ''text/plain'')
        = Inr (?s0\<lparr>parser := None, headers := (headers ?s0)
                 (''content-type'' \<mapsto> Scalar ''text/plain'')\<rparr>)"
    using C3_content_type [of "''Content-Type''" example_cfg "''text/plain''" ?s0 "''text/plain''"
        new_Parser, THEN conjunct2, THEN conjunct1, THEN mp,
        OF conjI [OF l conjI [OF p2 conjI [OF u h]]], THEN conjunct1] .
  have d: "isHtml (main example_cfg [''content-type'' \<mapsto> Scalar ''text/html''])"
    using C3_content_type [where c = example_cfg and hs = "[''content-type'' \<mapsto> Scalar ''text/html'']",
        THEN conjunct2, THEN conjunct2, THEN mp, OF m] .
  show ?thesis
    using a b d by (intro conjI)
qed

text \<open>
  C3 as stated says that a content-type whose media type is not text/html makes the
  classification NotHtml. After text/html, setting text/plain leaves \<^verbatim>\<open>isHtml\<close> set.
\<close>

theorem C3_isHtml_kept:
  "isHtml (run example_cfg (main example_cfg Map.empty)
          [SetHeader ''content-type'' (Scalar ''text/html''),
           SetHeader ''content-type'' (Scalar ''text/plain'')])
   \<and> parse example_cfg ''text/plain'' = Some ''text/plain''"
  by code_simp

section \<open>The backlog and its length before end is called\<close>

lemma Buffer_concat_exact: "n = length (concat bs) \<Longrightarrow> Buffer_concat bs n = concat bs"
  by (simp add: Buffer_concat_def)

lemma onopentag_counted:
  "len s = total_length (buffers s) \<Longrightarrow>
     len (onopentag c s t) = total_length (buffers (onopentag c s t))"
  by (auto simp: onopentag_def Let_def total_length_def Buffer_concat_exact split: option.splits)

lemma parser_write_counted:
  "len s = total_length (buffers s) \<Longrightarrow>
     len (parser_write c s d) = total_length (buffers (parser_write c s d))"
proof (induction d arbitrary: s)
  case Nil
  then show ?case by simp
next
  case (Cons x xs)
  show ?case
  proof (cases "parser s")
    case None
    then show ?thesis using Cons.prems by simp
  next
    case (Some p)
    obtain t' ev where st: "tok_step (tok p) x = (t', ev)"
      by (cases "tok_step (tok p) x")
    show ?thesis
    proof (cases ev)
      case None
      then show ?thesis
        using Some st Cons.prems
          Cons.IH [of "s\<lparr>parser := Some (p\<lparr>tok := t', pos := pos p + 1\<rparr>)\<rparr>"]
        by simp
    next
      case (Some tagName)
      let ?s1 = "s\<lparr>parser := Some (p\<lparr>tok := t', pos := pos p + 1, endIndex := pos p\<rparr>)\<rparr>"
      have "len ?s1 = total_length (buffers ?s1)"
        using Cons.prems by simp
      then have "len (onopentag c ?s1 tagName) = total_length (buffers (onopentag c ?s1 tagName))"
        by (rule onopentag_counted)
      then show ?thesis
        using \<open>parser s = Some p\<close> st Some Cons.IH [of "onopentag c ?s1 tagName"]
        by simp
    qed
  qed
qed

lemma onopentag_shape:
  "len s = total_length (buffers s) \<Longrightarrow>
     buffers (onopentag c s t) = buffers s
     \<or> (parser (onopentag c s t) = None
        \<and> (\<exists>i. buffers (onopentag c s t)
              = [take i (concat (buffers s)) @ injectChunk c @ drop i (concat (buffers s))]))"
  by (auto simp: onopentag_def Let_def total_length_def Buffer_concat_exact split: option.splits)

lemma parser_write_shape:
  "len s = total_length (buffers s) \<Longrightarrow>
     buffers (parser_write c s d) = buffers s
     \<or> (\<exists>i. buffers (parser_write c s d)
              = [take i (concat (buffers s)) @ injectChunk c @ drop i (concat (buffers s))])"
proof (induction d arbitrary: s)
  case Nil
  then show ?case by simp
next
  case (Cons x xs)
  show ?case
  proof (cases "parser s")
    case None
    then show ?thesis by simp
  next
    case (Some p)
    obtain t' ev where st: "tok_step (tok p) x = (t', ev)"
      by (cases "tok_step (tok p) x")
    show ?thesis
    proof (cases ev)
      case None
      then show ?thesis
        using Some st Cons.prems
          Cons.IH [of "s\<lparr>parser := Some (p\<lparr>tok := t', pos := pos p + 1\<rparr>)\<rparr>"]
        by simp
    next
      case (Some tagName)
      let ?s1 = "s\<lparr>parser := Some (p\<lparr>tok := t', pos := pos p + 1, endIndex := pos p\<rparr>)\<rparr>"
      let ?s2 = "onopentag c ?s1 tagName"
      have w: "parser_write c s (x # xs) = parser_write c ?s2 xs"
        using \<open>parser s = Some p\<close> st Some by simp
      have l1: "len ?s1 = total_length (buffers ?s1)"
        using Cons.prems by simp
      have l2: "len ?s2 = total_length (buffers ?s2)"
        using l1 by (rule onopentag_counted)
      from onopentag_shape [OF l1, of c tagName]
      show ?thesis
      proof
        assume same: "buffers ?s2 = buffers ?s1"
        then show ?thesis
          using Cons.IH [OF l2] w by simp
      next
        assume "parser ?s2 = None
          \<and> (\<exists>i. buffers ?s2
                = [take i (concat (buffers ?s1)) @ injectChunk c @ drop i (concat (buffers ?s1))])"
        then have n: "parser ?s2 = None"
          and e: "\<exists>i. buffers ?s2
                = [take i (concat (buffers s)) @ injectChunk c @ drop i (concat (buffers s))]"
          by simp_all
        have "parser_write c ?s2 xs = ?s2"
          using n by (cases xs) simp_all
        then show ?thesis
          using w e by simp
      qed
    qed
  qed
qed

lemma res_setHeader_body:
  "res_setHeader c s n v = Inr s' \<Longrightarrow>
     buffers s' = buffers s \<and> len s' = len s \<and> willEnd s' = willEnd s
     \<and> (parser s' = parser s \<or> parser s' = None)
     \<and> filter is_End (out s') = filter is_End (out s)"
proof (cases v)
  case (Multi xs)
  then show "res_setHeader c s n v = Inr s' \<Longrightarrow> ?thesis"
    by (auto simp: res_setHeader_def)
next
  case (Scalar x)
  assume r: "res_setHeader c s n v = Inr s'"
  have a: "filter is_End (out (adjustContentLength c s v)) = filter is_End (out s)"
    by (simp add: adjustContentLength_def split: option.splits)
  show ?thesis
    using r Scalar a
    by (simp add: res_setHeader_def Let_def split: option.splits if_splits) auto
qed

lemma exec_setHeader_counted:
  "backlog_counted s \<Longrightarrow> backlog_counted (exec c s (SetHeader n v))"
proof (cases "res_setHeader c s n v")
  case (Inl e)
  then show "backlog_counted s \<Longrightarrow> ?thesis" by simp
next
  case (Inr s')
  assume b: "backlog_counted s"
  from res_setHeader_body [OF Inr]
  have "buffers s' = buffers s" "len s' = len s" "willEnd s' = willEnd s"
    "parser s' = parser s \<or> parser s' = None"
    by simp_all
  then have "backlog_counted s'"
    using b by (auto simp: backlog_counted_def)
  then show ?thesis
    using Inr by simp
qed

lemma exec_setHeader_End:
  "filter is_End (out (exec c s (SetHeader n v))) = filter is_End (out s)"
  by (cases "res_setHeader c s n v") (simp_all add: res_setHeader_body)

lemma out_call_if_function_End:
  "filter is_End (out (call_if_function s a)) = filter is_End (out s)"
  by (cases a) simp_all

lemma res_write_unfold:
  "res_write c s d a =
     (if rejected s a then emit_error s (encoding_error (first_arg a))
      else if parser s \<noteq> None then
        (if willEnd s
         then write_tail (parseComplete c (s\<lparr>len := len s + length d, buffers := buffers s @ [d]\<rparr>) d) d a
         else call_if_function
                (parser_write c (s\<lparr>len := len s + length d, buffers := buffers s @ [d]\<rparr>) d)
                (last_arg a))
      else if \<not> willEnd s \<and> buffers s \<noteq> [] then
        s\<lparr>buffers := [],
          out := out s @ [Write (Buffer_concat (buffers s @ [d]) (len s + length d)) a]\<rparr>
      else if willEnd s then write_tail (s\<lparr>buffers := buffers s @ [d]\<rparr>) d a
      else write_tail s d a)"
  by (simp add: res_write_def Let_def rejected_def)

lemma res_write_End:
  "\<not> willEnd s \<Longrightarrow> filter is_End (out (res_write c s d a)) = filter is_End (out s)"
  by (simp add: res_write_unfold write_tail_def out_call_if_function_End)

lemma res_write_counted:
  assumes "backlog_counted s"
  shows "backlog_counted (res_write c s d a)"
proof -
  have w: "\<not> willEnd s"
    using assms by (simp add: backlog_counted_def)
  show ?thesis
  proof (cases "rejected s a")
    case True
    then show ?thesis
      using assms by (simp add: res_write_unfold backlog_counted_def)
  next
    case False
    show ?thesis
    proof (cases "parser s")
      case (Some p)
      let ?s1 = "s\<lparr>len := len s + length d, buffers := buffers s @ [d]\<rparr>"
      have l: "len ?s1 = total_length (buffers ?s1)"
        using assms Some by (simp add: backlog_counted_def total_length_def)
      have r: "res_write c s d a = call_if_function (parser_write c ?s1 d) (last_arg a)"
        using False Some w by (simp add: res_write_unfold)
      show ?thesis
        unfolding r using parser_write_counted [OF l, of c d] w
        by (simp add: backlog_counted_def)
    next
      case None
      then show ?thesis
        using False w assms
        by (simp add: res_write_unfold backlog_counted_def write_tail_def)
    qed
  qed
qed

lemma main_counted: "backlog_counted (main c hs)"
  by (simp add: main_def Let_def backlog_counted_def total_length_def split: option.splits)

lemma main_no_End: "filter is_End (out (main c hs)) = []"
  by (simp add: main_def Let_def adjustContentLength_def split: option.splits)

lemma run_counted:
  "\<not> list_ex is_EndCall xs \<Longrightarrow> backlog_counted s \<Longrightarrow>
     backlog_counted (run c s xs) \<and> filter is_End (out (run c s xs)) = filter is_End (out s)"
proof (induction xs arbitrary: s)
  case Nil
  then show ?case by simp
next
  case (Cons x xs)
  have nx: "\<not> is_EndCall x" and nxs: "\<not> list_ex is_EndCall xs"
    using Cons.prems(1) by simp_all
  have "backlog_counted (exec c s x) \<and> filter is_End (out (exec c s x)) = filter is_End (out s)"
  proof (cases x)
    case (SetHeader n v)
    then show ?thesis
      using Cons.prems(2) exec_setHeader_counted [of s c n v] exec_setHeader_End [of c s n v]
      by simp
  next
    case (WriteCall d a)
    then show ?thesis
      using Cons.prems(2) res_write_counted [of s c d a] res_write_End [of s c d a]
      by (simp add: backlog_counted_def)
  next
    case (EndCall d a)
    then show ?thesis using nx by simp
  qed
  then show ?case
    using Cons.IH [OF nxs, of "exec c s x"] by simp
qed

section \<open>The call of end\<close>

lemma res_end_unfold:
  "res_end c s data restArgs
     = res_write c (s\<lparr>willEnd := True\<rparr>) (end_data data) (end_args data restArgs)"
  by (cases data) (simp_all add: res_end_def)

lemma rejected_willEnd [simp]: "rejected (s\<lparr>willEnd := True\<rparr>) a = rejected s a"
  by (simp add: rejected_def)

lemma hd_single: "length bs = 1 \<Longrightarrow> hd bs = concat bs"
  by (cases bs) simp_all

lemma write_tail_counted:
  "willEnd s \<Longrightarrow> len s = total_length (buffers s) \<Longrightarrow>
     write_tail s d a = s\<lparr>out := out s @ [End (concat (buffers s)) a]\<rparr>"
  by (simp add: write_tail_def hd_single total_length_def Buffer_concat_exact)

lemma parseComplete_shape:
  assumes "parser s = Some p" and "len s = total_length (buffers s)"
  shows "parser (parseComplete c s d) = None
    \<and> len (parseComplete c s d) = total_length (buffers (parseComplete c s d))
    \<and> (buffers (parseComplete c s d) = buffers s
        \<or> (\<exists>i. buffers (parseComplete c s d)
              = [take i (concat (buffers s)) @ injectChunk c @ drop i (concat (buffers s))]))"
proof -
  let ?s1 = "s\<lparr>parser := Some (p\<lparr>tok := Text, pos := 0\<rparr>)\<rparr>"
  have e: "parseComplete c s d = parser_end (parser_write c ?s1 d)"
    using assms(1) by (simp add: parseComplete_def)
  have l: "len ?s1 = total_length (buffers ?s1)"
    using assms(2) by simp
  show ?thesis
    unfolding e
    using parser_write_counted [OF l, of c d] parser_write_shape [OF l, of c d]
    by simp
qed

lemma res_end_alive:
  assumes "backlog_counted s" and "\<not> rejected s (end_args data restArgs)" and "parser s = Some p"
  shows "out (res_end c s data restArgs)
           = out s @ [End (concat (buffers (res_end c s data restArgs))) (end_args data restArgs)]
    \<and> (concat (buffers (res_end c s data restArgs)) = concat (buffers s) @ end_data data
        \<or> (\<exists>i. concat (buffers (res_end c s data restArgs))
              = take i (concat (buffers s) @ end_data data) @ injectChunk c
                  @ drop i (concat (buffers s) @ end_data data)))"
proof -
  let ?d = "end_data data" and ?a = "end_args data restArgs"
  let ?s1 = "s\<lparr>willEnd := True, len := len s + length ?d, buffers := buffers s @ [?d]\<rparr>"
  let ?s2 = "parseComplete c ?s1 ?d"
  have r: "res_end c s data restArgs = write_tail ?s2 ?d ?a"
    using assms(2,3) by (simp add: res_end_unfold res_write_unfold)
  have p1: "parser ?s1 = Some p"
    using assms(3) by simp
  have l1: "len ?s1 = total_length (buffers ?s1)"
    using assms(1,3) by (simp add: backlog_counted_def total_length_def)
  note sh = parseComplete_shape [OF p1 l1, of c ?d]
  have l2: "len ?s2 = total_length (buffers ?s2)"
    using sh by simp
  have w2: "willEnd ?s2"
    by simp
  have t: "write_tail ?s2 ?d ?a = ?s2\<lparr>out := out ?s2 @ [End (concat (buffers ?s2)) ?a]\<rparr>"
    using w2 l2 by (rule write_tail_counted)
  have o: "out ?s2 = out s"
    by simp
  have b: "buffers ?s2 = buffers ?s1
        \<or> (\<exists>i. buffers ?s2
              = [take i (concat (buffers ?s1)) @ injectChunk c @ drop i (concat (buffers ?s1))])"
    using sh by simp
  have c1: "concat (buffers ?s1) = concat (buffers s) @ ?d"
    by simp
  have sp: "concat (buffers ?s2) = concat (buffers s) @ ?d
        \<or> (\<exists>i. concat (buffers ?s2)
              = take i (concat (buffers s) @ ?d) @ injectChunk c @ drop i (concat (buffers s) @ ?d))"
    using b unfolding c1 [symmetric] by auto
  show ?thesis
    unfolding r t using o sp by simp
qed

lemma res_end_stopped:
  assumes "backlog_counted s" and "\<not> rejected s (end_args data restArgs)" and "parser s = None"
  shows "buffers (res_end c s data restArgs) = buffers s @ [end_data data]
    \<and> (\<exists>chunk. out (res_end c s data restArgs) = out s @ [End chunk (end_args data restArgs)])
    \<and> (buffers s = [] \<or> end_data data = [] \<longrightarrow>
         out (res_end c s data restArgs)
           = out s @ [End (concat (buffers s @ [end_data data])) (end_args data restArgs)])"
proof -
  let ?d = "end_data data" and ?a = "end_args data restArgs"
  let ?s1 = "s\<lparr>willEnd := True, buffers := buffers s @ [?d]\<rparr>"
  have r: "res_end c s data restArgs = write_tail ?s1 ?d ?a"
    using assms(2,3) by (simp add: res_end_unfold res_write_unfold)
  have b: "buffers (write_tail ?s1 ?d ?a) = buffers s @ [?d]"
    by simp
  have e: "\<exists>chunk. out (write_tail ?s1 ?d ?a) = out s @ [End chunk ?a]"
    by (simp add: write_tail_def)
  have x: "out (write_tail ?s1 ?d ?a) = out s @ [End (concat (buffers s @ [?d])) ?a]"
    if "buffers s = [] \<or> ?d = []"
  proof (cases "buffers s = []")
    case True
    then show ?thesis by (simp add: write_tail_def)
  next
    case False
    then have d: "?d = []" using that by simp
    have l: "len s = total_length (buffers s)"
      using assms(1) False by (simp add: backlog_counted_def)
    have "len ?s1 = total_length (buffers ?s1)"
      using l d by (simp add: total_length_def)
    then have "write_tail ?s1 ?d ?a = ?s1\<lparr>out := out ?s1 @ [End (concat (buffers ?s1)) ?a]\<rparr>"
      by (intro write_tail_counted) simp
    then show ?thesis by simp
  qed
  show ?thesis
    unfolding r using b e x by blast
qed

text \<open>
  C5, as the code has it. Let a response be attached and any writes and header
  settings be made, and let end be called once. Until then nothing has reached the
  underlying end. The call of end is a call of the wrapped write, with \<^verbatim>\<open>willEnd\<close> set,
  of the data given (of no bytes when the first argument is a callback or absent) and
  with the callback alone or the remaining arguments. Unless that write rejects its
  encoding argument, the underlying end is called exactly once, as the last thing
  that reaches the response; its chunk is the concatenation of the whole backlog
  whenever the parser was still alive when end was called, or nothing was pending, or
  end carries no data. That backlog is the pending chunks followed by the data of end,
  with the payload inserted at one place when the parser finds the tag at that moment.
\<close>

theorem C5_end_once:
  assumes "\<not> list_ex is_EndCall xs"
    and "s = run c (main c hs) xs"
    and "s' = res_end c s data restArgs"
    and "d = end_data data" and "a = end_args data restArgs"
  shows "filter is_End (out s) = []
    \<and> s' = res_write c (s\<lparr>willEnd := True\<rparr>) d a
    \<and> (\<not> rejected s a \<longrightarrow>
         (\<exists>chunk. out s' = out s @ [End chunk a])
         \<and> (parser s \<noteq> None \<or> buffers s = [] \<or> d = [] \<longrightarrow>
               out s' = out s @ [End (concat (buffers s')) a])
         \<and> (parser s = None \<longrightarrow> buffers s' = buffers s @ [d])
         \<and> (parser s \<noteq> None \<longrightarrow>
               concat (buffers s') = concat (buffers s) @ d
               \<or> (\<exists>i. concat (buffers s')
                     = take i (concat (buffers s) @ d) @ injectChunk c
                         @ drop i (concat (buffers s) @ d))))"
proof (intro conjI impI)
  have rc: "backlog_counted s \<and> filter is_End (out s) = filter is_End (out (main c hs))"
    unfolding assms(2) using assms(1) main_counted by (rule run_counted)
  then have bc: "backlog_counted s"
    by (rule conjunct1)
  show "filter is_End (out s) = []"
    using rc by (simp add: main_no_End)
  show "s' = res_write c (s\<lparr>willEnd := True\<rparr>) d a"
    unfolding assms(3,4,5) by (rule res_end_unfold)
  assume nr: "\<not> rejected s a"
  then have nr': "\<not> rejected s (end_args data restArgs)"
    by (simp add: assms(5))
  show "\<exists>chunk. out s' = out s @ [End chunk a]"
  proof (cases "parser s")
    case None
    then show ?thesis
      using res_end_stopped [OF bc nr' None, of c] by (simp add: assms(3,5))
  next
    case (Some p)
    then show ?thesis
      using res_end_alive [OF bc nr' Some, of c] by (simp add: assms(3,5))
  qed
  show "out s' = out s @ [End (concat (buffers s')) a]"
    if "parser s \<noteq> None \<or> buffers s = [] \<or> d = []"
  proof (cases "parser s")
    case None
    then have "buffers s = [] \<or> end_data data = []"
      using that by (simp add: assms(4))
    then show ?thesis
      using res_end_stopped [OF bc nr' None, of c] by (simp add: assms(3,5))
  next
    case (Some p)
    then show ?thesis
      using res_end_alive [OF bc nr' Some, of c] by (simp add: assms(3,5))
  qed
  show "buffers s' = buffers s @ [d]" if "parser s = None"
    using res_end_stopped [OF bc nr' that, of c] by (simp add: assms(3,4))
  show "concat (buffers s') = concat (buffers s) @ d
          \<or> (\<exists>i. concat (buffers s')
                = take i (concat (buffers s) @ d) @ injectChunk c @ drop i (concat (buffers s) @ d))"
    if alive: "parser s \<noteq> None"
  proof -
    obtain p where "parser s = Some p"
      using alive by auto
    then show ?thesis
      using res_end_alive [OF bc nr' \<open>parser s = Some p\<close>, of c] by (simp add: assms(3,4))
  qed
qed

theorem C5_end_once_witness:
  "filter is_End
     (out (run example_cfg (main example_cfg Map.empty)
             [SetHeader ''content-type'' (Scalar ''text/html'')])) = []
   \<and> out (res_end example_cfg
             (run example_cfg (main example_cfg Map.empty)
                [SetHeader ''content-type'' (Scalar ''text/html'')])
             (Str ''<body></body>'') [])
       = out (run example_cfg (main example_cfg Map.empty)
                [SetHeader ''content-type'' (Scalar ''text/html'')])
           @ [End ''<body>X</body>'' []]
   \<and> out (res_end example_cfg
             (run example_cfg (main example_cfg Map.empty)
                [SetHeader ''content-type'' (Scalar ''text/html''),
                 WriteCall ''<body>'' [], WriteCall ''x'' []])
             (Fun 3) [])
       = out (run example_cfg (main example_cfg Map.empty)
                [SetHeader ''content-type'' (Scalar ''text/html''),
                 WriteCall ''<body>'' [], WriteCall ''x'' []])
           @ [End [] [Fun 3]]"
proof -
  let ?xs1 = "[SetHeader ''content-type'' (Scalar ''text/html'')]"
  let ?xs2 = "[SetHeader ''content-type'' (Scalar ''text/html''),
               WriteCall ''<body>'' [], WriteCall ''x'' []]"
  let ?S1 = "run example_cfg (main example_cfg Map.empty) ?xs1"
  let ?S2 = "run example_cfg (main example_cfg Map.empty) ?xs2"
  have n1: "\<not> list_ex is_EndCall ?xs1" and n2: "\<not> list_ex is_EndCall ?xs2"
    by simp_all
  have r1: "\<not> rejected ?S1 (end_args (Str ''<body></body>'') [])"
    and r2: "\<not> rejected ?S2 (end_args (Fun 3) [])"
    by (simp_all add: rejected_def)
  have p1: "parser ?S1 \<noteq> None"
    by (simp add: main_def res_setHeader_def example_cfg_def
          example_parse_def trim_def whitespace_def token_char_def toLowerCase_def to_lower_def)
  have b1: "concat (buffers (res_end example_cfg ?S1 (Str ''<body></body>'') [])) = ''<body>X</body>''"
    by code_simp
  have d2: "end_data (Fun 3) = []"
    by simp
  have b2: "concat (buffers (res_end example_cfg ?S2 (Fun 3) [])) = []"
    by code_simp
  note t1 = C5_end_once [OF n1 refl refl refl refl, of example_cfg Map.empty "Str ''<body></body>''" "[]"]
  note t2 = C5_end_once [OF n2 refl refl refl refl, of example_cfg Map.empty "Fun 3" "[]"]
  have a: "filter is_End (out ?S1) = []"
    using t1 by (rule conjunct1)
  have e1: "out (res_end example_cfg ?S1 (Str ''<body></body>'') [])
      = out ?S1 @ [End (concat (buffers (res_end example_cfg ?S1 (Str ''<body></body>'') [])))
                     (end_args (Str ''<body></body>'') [])]"
    using t1 [THEN conjunct2, THEN conjunct2, THEN mp, OF r1, THEN conjunct2, THEN conjunct1,
        THEN mp, OF disjI1, OF p1] .
  have e2: "out (res_end example_cfg ?S2 (Fun 3) [])
      = out ?S2 @ [End (concat (buffers (res_end example_cfg ?S2 (Fun 3) [])))
                     (end_args (Fun 3) [])]"
    using t2 [THEN conjunct2, THEN conjunct2, THEN mp, OF r2, THEN conjunct2, THEN conjunct1,
        THEN mp, OF disjI2, OF disjI2, OF d2] .
  show ?thesis
    using a e1 e2 unfolding b1 b2 by simp
qed

text \<open>
  C5 as stated promises one call of the underlying end for every sequence of writes
  followed by one end. An end whose encoding argument is rejected emits an error and
  calls nothing.
\<close>

theorem C5_end_rejected:
  "filter is_End
     (out (run example_cfg (main example_cfg Map.empty)
             [SetHeader ''content-type'' (Scalar ''text/html''),
              WriteCall ''<body>'' [],
              EndCall (Str ''x'') [Str ''latin1'']]))
   = []"
  by code_simp

end
